theory Spec2Isabelle
  imports Complex_Main
begin

section \<open>Rate schedule\<close>

text \<open>
  The program computes with Python floats; they are modelled as the reals, so every
  statement below is about the arithmetic the code writes down, not about rounding.
  A bracket capacity is a float that may be \<open>float('inf')\<close>.
\<close>

datatype capacity = Finite real | Infinite

text \<open>\<open>PROGRESSIVE_RATES\<close>: (bracket capacity in kWh, summer rate, non-summer rate).\<close>

definition PROGRESSIVE_RATES :: "(capacity \<times> real \<times> real) list" where
  "PROGRESSIVE_RATES =
     [(Finite 120, 1.68, 1.68), (Finite 210, 2.45, 2.16), (Finite 170, 3.70, 3.03),
      (Finite 200, 5.04, 4.14), (Finite 300, 6.24, 5.07), (Infinite, 8.46, 6.63)]"

datatype category = peak | off_peak

datatype season = summer | nonsummer

text \<open>\<open>TOU_RATES_DATA\<close>, one constant per key of the dictionary.\<close>

definition basic_fee_monthly :: real where
  "basic_fee_monthly = 75.0"

definition surcharge_kwh_threshold :: real where
  "surcharge_kwh_threshold = 2000.0"

definition surcharge_rate_per_kwh :: real where
  "surcharge_rate_per_kwh = 0.99"

fun rates :: "season \<Rightarrow> category \<Rightarrow> real" where
  "rates summer peak = 4.71"
| "rates summer off_peak = 1.85"
| "rates nonsummer peak = 4.48"
| "rates nonsummer off_peak = 1.78"

section \<open>Progressive cost\<close>

text \<open>Python's \<open>min(kwh_remaining, bracket_kwh)\<close>, the second argument possibly infinite.\<close>

fun min_cap :: "real \<Rightarrow> capacity \<Rightarrow> real" where
  "min_cap x (Finite c) = min x c"
| "min_cap x Infinite = x"

text \<open>
  The \<open>for\<close> loop of \<open>calculate_progressive_cost\<close> over the remaining brackets, with the
  loop variables \<open>cost\<close> and \<open>kwh_remaining\<close> passed along; \<open>break\<close> returns the cost so far.
  \<open>rates[rate_index - 1]\<close> reads the two-element tail of the tuple.
\<close>

fun progressive_loop :: "(capacity \<times> real \<times> real) list \<Rightarrow> nat \<Rightarrow> real \<Rightarrow> real \<Rightarrow> real" where
  "progressive_loop [] rate_index cost kwh_remaining = cost"
| "progressive_loop ((bracket_kwh, r1, r2) # rest) rate_index cost kwh_remaining =
     (let rate = [r1, r2] ! (rate_index - 1) in
      if kwh_remaining \<le> 0 then cost
      else
        let kwh_in_bracket = min_cap kwh_remaining bracket_kwh
        in progressive_loop rest rate_index (cost + kwh_in_bracket * rate)
             (kwh_remaining - kwh_in_bracket))"

definition calculate_progressive_cost :: "real \<Rightarrow> bool \<Rightarrow> real" where
  "calculate_progressive_cost total_kwh_month is_summer =
     progressive_loop PROGRESSIVE_RATES (if is_summer then 1 else 2) 0 total_kwh_month"

text \<open>
  The bracket walk as the specification words it, written as a closed form: bracket \<open>i\<close>
  starts where the capacities of the brackets below it end (0, 120, 330, 500, 700, 1000 kWh),
  and is charged on the part of the consumption that lies inside it; the last bracket has
  no upper end.
\<close>

definition bracket_charge :: "real \<Rightarrow> real \<Rightarrow> real \<Rightarrow> real \<Rightarrow> real" where
  "bracket_charge kwh lower cap rate = min (max 0 (kwh - lower)) cap * rate"

definition spec_progressive_cost :: "real \<Rightarrow> bool \<Rightarrow> real" where
  "spec_progressive_cost kwh is_summer =
     bracket_charge kwh 0 120 1.68
   + bracket_charge kwh 120 210 (if is_summer then 2.45 else 2.16)
   + bracket_charge kwh 330 170 (if is_summer then 3.70 else 3.03)
   + bracket_charge kwh 500 200 (if is_summer then 5.04 else 4.14)
   + bracket_charge kwh 700 300 (if is_summer then 6.24 else 5.07)
   + max 0 (kwh - 1000) * (if is_summer then 8.46 else 6.63)"

section \<open>Timestamps\<close>

text \<open>
  A pandas \<open>Timestamp\<close> without time zone is a count of time units since
  1970-01-01T00:00; here the unit is the second. The calendar fields the program reads
  (\<open>month\<close>, \<open>hour\<close>, \<open>dayofweek\<close> with Monday = 0) are computed from the count in the
  proleptic Gregorian calendar. Integer division rounds down, as the fields do for counts
  before 1970.
\<close>

type_synonym timestamp = int

definition seconds_per_day :: int where
  "seconds_per_day = 86400"

definition day_number :: "timestamp \<Rightarrow> int" where
  "day_number t = t div seconds_per_day"

definition hour :: "timestamp \<Rightarrow> int" where
  "hour t = (t mod seconds_per_day) div 3600"

definition dayofweek :: "timestamp \<Rightarrow> int" where
  "dayofweek t = (day_number t + 3) mod 7"

text \<open>Year, month and day of month of a day number (days since 1970-01-01).\<close>

definition civil_from_days :: "int \<Rightarrow> int \<times> int \<times> int" where
  "civil_from_days z0 =
     (let z = z0 + 719468;
          era = z div 146097;
          doe = z - era * 146097;
          yoe = (doe - doe div 1460 + doe div 36524 - doe div 146096) div 365;
          doy = doe - (365 * yoe + yoe div 4 - yoe div 100);
          mp = (5 * doy + 2) div 153;
          d = doy - (153 * mp + 2) div 5 + 1;
          m = (if mp < 10 then mp + 3 else mp - 9);
          y = yoe + era * 400 + (if m \<le> 2 then 1 else 0)
      in (y, m, d))"

definition year :: "timestamp \<Rightarrow> int" where
  "year t = fst (civil_from_days (day_number t))"

definition month :: "timestamp \<Rightarrow> int" where
  "month t = fst (snd (civil_from_days (day_number t)))"

definition day :: "timestamp \<Rightarrow> int" where
  "day t = snd (snd (civil_from_days (day_number t)))"

text \<open>
  Two quantities of \<open>civil_from_days\<close>, named for the proofs about it: the numerator whose
  quotient by 365 is the year of the era, and the number of days of an era that lie
  before its year \<open>y\<close>.
\<close>

definition year_count :: "int \<Rightarrow> int" where
  "year_count d = d - d div 1460 + d div 36524 - d div 146096"

definition days_before_year :: "int \<Rightarrow> int" where
  "days_before_year y = 365 * y + y div 4 - y div 100"

section \<open>Time-of-use classification\<close>

definition get_tou_details :: "timestamp \<Rightarrow> category \<times> real \<times> bool" where
  "get_tou_details t =
     (let is_summer = (month t \<ge> 6 \<and> month t \<le> 9);
          is_weekend = (dayofweek t \<ge> 5);
          h = hour t;
          cat = (if \<not> is_weekend then
                   (if is_summer then (if 9 \<le> h \<and> h < 24 then peak else off_peak)
                    else (if (6 \<le> h \<and> h < 11) \<or> (14 \<le> h \<and> h < 24) then peak else off_peak))
                 else off_peak);
          seas = (if is_summer then summer else nonsummer);
          rate = rates seas cat
      in (cat, rate, is_summer))"

section \<open>Tariff comparison\<close>

text \<open>
  A row of the history frame: the \<open>DatetimeIndex\<close> entry and the \<open>power_kW\<close> column.
  A frame is the list of its rows, in row order.
\<close>

record reading =
  index :: timestamp
  power_kW :: real

text \<open>A row of \<open>df_analysis\<close>: the reading and the five columns the function adds.\<close>

record analysis_row = reading +
  tou_category :: category
  tou_rate :: real
  is_summer :: bool
  kwh :: real
  tou_flow_cost :: real

definition analysis_of :: "reading \<Rightarrow> analysis_row" where
  "analysis_of r =
     (case get_tou_details (index r) of (cat, rate, seas) \<Rightarrow>
        \<lparr>index = index r, power_kW = power_kW r, tou_category = cat, tou_rate = rate,
         is_summer = seas, kwh = power_kW r * 0.25,
         tou_flow_cost = (power_kW r * 0.25) * rate\<rparr>)"

text \<open>
  \<open>resample('MS')\<close> bins the rows by calendar month: one bin for every month from the
  month of the earliest row to the month of the latest one, the months without rows
  included (their sums are 0). A month is numbered \<open>12 * year + (month - 1)\<close>; the bin's
  label is the first day of that month, so the label's \<open>month\<close> field is \<open>label_month\<close>.
\<close>

definition month_number :: "timestamp \<Rightarrow> int" where
  "month_number t = 12 * year t + (month t - 1)"

definition label_month :: "int \<Rightarrow> int" where
  "label_month k = k mod 12 + 1"

definition month_bins :: "('a reading_scheme) list \<Rightarrow> int list" where
  "month_bins df =
     (if df = [] then []
      else [Min (set (map (\<lambda>r. month_number (index r)) df)) ..
            Max (set (map (\<lambda>r. month_number (index r)) df))])"

definition resample_MS :: "('a reading_scheme) list \<Rightarrow> (int \<times> ('a reading_scheme) list) list" where
  "resample_MS df =
     map (\<lambda>k. (k, filter (\<lambda>r. month_number (index r) = k) df)) (month_bins df)"

record monthly_tou_row =
  tou_label :: int
  tou_kwh :: real
  flow_cost :: real
  basic_fee :: real
  surcharge :: real
  tou_total_cost :: real

record monthly_prog_row =
  prog_label :: int
  prog_kwh :: real
  prog_is_summer :: bool
  prog_total_cost :: real

definition monthly_tou :: "analysis_row list \<Rightarrow> monthly_tou_row list" where
  "monthly_tou df_analysis =
     map (\<lambda>(k, rows).
            let kwh_sum = sum_list (map kwh rows);
                flow = sum_list (map tou_flow_cost rows);
                threshold = surcharge_kwh_threshold;
                surcharge_rate = surcharge_rate_per_kwh;
                sur = max 0 (kwh_sum - threshold) * surcharge_rate
            in \<lparr>tou_label = k, tou_kwh = kwh_sum, flow_cost = flow,
                basic_fee = basic_fee_monthly, surcharge = sur,
                tou_total_cost = flow + basic_fee_monthly + sur\<rparr>)
         (resample_MS df_analysis)"

definition monthly_prog :: "analysis_row list \<Rightarrow> monthly_prog_row list" where
  "monthly_prog df_analysis =
     map (\<lambda>(k, rows).
            let kwh_sum = sum_list (map kwh rows);
                seas = (label_month k \<ge> 6 \<and> label_month k \<le> 9)
            in \<lparr>prog_label = k, prog_kwh = kwh_sum, prog_is_summer = seas,
                prog_total_cost = calculate_progressive_cost kwh_sum seas\<rparr>)
         (resample_MS df_analysis)"

record results =
  total_kwh :: real
  cost_progressive :: real
  cost_tou :: real

definition analyze_pricing_plans :: "reading list \<Rightarrow> results \<times> analysis_row list" where
  "analyze_pricing_plans df_period =
     (let df_analysis = map analysis_of df_period;
          total_cost_tou = sum_list (map tou_total_cost (monthly_tou df_analysis));
          total_cost_progressive = sum_list (map prog_total_cost (monthly_prog df_analysis))
      in (\<lparr>total_kwh = sum_list (map kwh df_analysis),
           cost_progressive = total_cost_progressive,
           cost_tou = total_cost_tou\<rparr>, df_analysis))"

text \<open>The rows of a frame that lie in calendar month \<open>k\<close>: the frame cut to that month.\<close>

definition rows_of_month :: "int \<Rightarrow> reading list \<Rightarrow> reading list" where
  "rows_of_month k df = filter (\<lambda>r. month_number (index r) = k) df"

text \<open>
  The energy of calendar month \<open>k\<close> in a frame, and what that energy costs at the
  time-of-use rate of each reading.
\<close>

definition month_energy :: "int \<Rightarrow> reading list \<Rightarrow> real" where
  "month_energy k df = (\<Sum>r\<leftarrow>rows_of_month k df. power_kW r * 0.25)"

definition month_flow_cost :: "int \<Rightarrow> reading list \<Rightarrow> real" where
  "month_flow_cost k df =
     (\<Sum>r\<leftarrow>rows_of_month k df. power_kW r * 0.25 * fst (snd (get_tou_details (index r))))"

section \<open>Frame operations used by the KPI aggregator\<close>

datatype error = KeyError

definition index_max :: "reading list \<Rightarrow> timestamp" where
  "index_max df = Max (set (map index df))"

definition index_min :: "reading list \<Rightarrow> timestamp" where
  "index_min df = Min (set (map index df))"

text \<open>\<open>Timestamp.normalize()\<close>: midnight of the same day.\<close>

definition normalize :: "timestamp \<Rightarrow> timestamp" where
  "normalize t = day_number t * seconds_per_day"

text \<open>The offsets \<open>'7D'\<close>, \<open>'30D'\<close> and \<open>timedelta(days=n)\<close>.\<close>

definition days :: "int \<Rightarrow> int" where
  "days n = n * seconds_per_day"

text \<open>
  \<open>Index.searchsorted(key, side='right')\<close>: the binary search numpy runs on the index
  values between positions \<open>lo\<close> and \<open>hi\<close>, whatever their order. On an increasing index
  it returns the position after the last value that is at most \<open>key\<close>.
\<close>

function searchsorted_right :: "int list \<Rightarrow> int \<Rightarrow> nat \<Rightarrow> nat \<Rightarrow> nat" where
  "searchsorted_right arr key lo hi =
     (if lo < hi then
        (let mid = lo + (hi - lo) div 2 in
         if arr ! mid \<le> key then searchsorted_right arr key (mid + 1) hi
         else searchsorted_right arr key lo mid)
      else lo)"
  by pat_completeness auto
termination
  by (relation "measure (\<lambda>(arr, key, lo, hi). hi - lo)") auto

declare searchsorted_right.simps [simp del]

text \<open>
  \<open>df.last(offset)\<close>: an empty frame is returned as it is; otherwise the rows from the
  position \<open>searchsorted\<close> finds for (index of the last row - offset) to the end.
\<close>

definition last_offset :: "reading list \<Rightarrow> int \<Rightarrow> reading list" where
  "last_offset df offset =
     (if df = [] then []
      else drop (searchsorted_right (map index df) (index (last df) - offset) 0 (length df)) df)"

text \<open>
  The bounds of a label slice \<open>df.loc[a:b]\<close> on a \<open>DatetimeIndex\<close>, for labels that are
  timestamps or dates. On an increasing index the bounds are found by search. Otherwise
  the label has to be looked up: an index that holds it in one contiguous run gives the
  ends of the run, a decreasing index is searched in reverse, and any other index raises
  \<open>KeyError\<close>.
\<close>

definition contiguous_run :: "timestamp list \<Rightarrow> timestamp \<Rightarrow> bool" where
  "contiguous_run idx label =
     (label \<notin> set (dropWhile (\<lambda>t. t = label) (dropWhile (\<lambda>t. t \<noteq> label) idx)))"

definition slice_bound_left :: "reading list \<Rightarrow> timestamp \<Rightarrow> error + nat" where
  "slice_bound_left df label =
     (let idx = map index df in
      if sorted idx then Inr (length (takeWhile (\<lambda>t. t < label) idx))
      else if label \<in> set idx then
        (if contiguous_run idx label then Inr (length (takeWhile (\<lambda>t. t \<noteq> label) idx))
         else Inl KeyError)
      else if sorted (rev idx) then Inr (length (takeWhile (\<lambda>t. label < t) idx))
      else Inl KeyError)"

definition slice_bound_right :: "reading list \<Rightarrow> timestamp \<Rightarrow> error + nat" where
  "slice_bound_right df label =
     (let idx = map index df in
      if sorted idx then Inr (length (takeWhile (\<lambda>t. t \<le> label) idx))
      else if label \<in> set idx then
        (if contiguous_run idx label
         then Inr (length (takeWhile (\<lambda>t. t \<noteq> label) idx)
                   + length (takeWhile (\<lambda>t. t = label) (dropWhile (\<lambda>t. t \<noteq> label) idx)))
         else Inl KeyError)
      else if sorted (rev idx) then Inr (length (takeWhile (\<lambda>t. label < t) idx))
      else Inl KeyError)"

text \<open>\<open>df.loc[start:]\<close>\<close>

definition loc_from :: "reading list \<Rightarrow> timestamp \<Rightarrow> error + reading list" where
  "loc_from df start =
     (case slice_bound_left df start of
        Inl e \<Rightarrow> Inl e
      | Inr lo \<Rightarrow> Inr (drop lo df))"

text \<open>\<open>df.loc[start:stop]\<close>, both ends included.\<close>

definition loc_between :: "reading list \<Rightarrow> timestamp \<Rightarrow> timestamp \<Rightarrow> error + reading list" where
  "loc_between df start stop =
     (case slice_bound_left df start of
        Inl e \<Rightarrow> Inl e
      | Inr lo \<Rightarrow>
          (case slice_bound_right df stop of
             Inl e \<Rightarrow> Inl e
           | Inr hi \<Rightarrow> Inr (take (hi - lo) (drop lo df))))"

section \<open>KPI aggregator\<close>

record kpis =
  projected_cost :: real
  kwh_this_month_so_far :: real
  kwh_last_7_days :: real
  kwh_previous_7_days :: real
  weekly_delta_percent :: real
  status_data_available :: bool
  peak_kwh :: real
  off_peak_kwh :: real
  PRICE_PER_KWH_AVG :: real
  kwh_today_so_far :: real
  cost_today_so_far :: real
  latest_data :: "reading option"

text \<open>The dictionary \<open>get_core_kpis\<close> starts from.\<close>

definition initial_kpis :: kpis where
  "initial_kpis =
     \<lparr>projected_cost = 0, kwh_this_month_so_far = 0, kwh_last_7_days = 0,
      kwh_previous_7_days = 0, weekly_delta_percent = 0, status_data_available = False,
      peak_kwh = 0, off_peak_kwh = 0, PRICE_PER_KWH_AVG = 3.5,
      kwh_today_so_far = 0, cost_today_so_far = 0, latest_data = None\<rparr>"

definition power_sum :: "reading list \<Rightarrow> real" where
  "power_sum df = sum_list (map power_kW df)"

text \<open>
  The body of the \<open>try\<close> block, one definition per commented section of the source. The
  dictionary \<open>kpis\<close> is updated in place, so each section takes the dictionary as it
  stands and returns it updated. A section that raises returns \<open>Inl\<close> with the exception
  and the dictionary as it stood when the exception was raised.
\<close>

definition kpi_projected :: "reading list \<Rightarrow> kpis \<Rightarrow> kpis" where
  "kpi_projected df_history k0 =
     (let kwh_last_30d = power_sum (last_offset df_history (days 30)) * 0.25;
          today = index_max df_history;
          is_summer_now = (month today \<ge> 6 \<and> month today \<le> 9);
          k1 = k0\<lparr>projected_cost := calculate_progressive_cost kwh_last_30d is_summer_now\<rparr>
      in if kwh_last_30d > 0
         then k1\<lparr>PRICE_PER_KWH_AVG := projected_cost k1 / kwh_last_30d\<rparr>
         else k1)"

definition kpi_today :: "reading list \<Rightarrow> kpis \<Rightarrow> (error \<times> kpis) + kpis" where
  "kpi_today df_history k0 =
     (let today_start = normalize (index_max df_history) in
      case loc_from df_history today_start of
        Inl e \<Rightarrow> Inl (e, k0)
      | Inr df_today \<Rightarrow>
          (let k1 = k0\<lparr>kwh_today_so_far := power_sum df_today * 0.25\<rparr>
           in Inr (k1\<lparr>cost_today_so_far := kwh_today_so_far k1 * PRICE_PER_KWH_AVG k1\<rparr>)))"

text \<open>
  Dates are day numbers; \<open>today_date.replace(day=1)\<close> is the day number of the first of
  the month, and a date used as a slice label stands for its midnight.
\<close>

definition kpi_month :: "reading list \<Rightarrow> kpis \<Rightarrow> (error \<times> kpis) + kpis" where
  "kpi_month df_history k0 =
     (let today_date = day_number (index_max df_history);
          first_of_month = today_date - (day (index_max df_history) - 1);
          start_of_month =
            (if first_of_month < day_number (index_min df_history)
             then day_number (index_min df_history) else first_of_month)
      in case loc_from df_history (days start_of_month) of
           Inl e \<Rightarrow> Inl (e, k0)
         | Inr df_this_month \<Rightarrow>
             Inr (k0\<lparr>kwh_this_month_so_far := power_sum df_this_month * 0.25\<rparr>))"

definition kpi_week :: "reading list \<Rightarrow> kpis \<Rightarrow> (error \<times> kpis) + kpis" where
  "kpi_week df_history k0 =
     (let df_last_7d = last_offset df_history (days 7);
          k1 = k0\<lparr>kwh_last_7_days := power_sum df_last_7d * 0.25\<rparr>;
          start_of_prev_7d = index_min df_last_7d - days 7;
          end_of_prev_7d = index_min df_last_7d
      in if start_of_prev_7d \<ge> index_min df_history then
           (case loc_between df_history start_of_prev_7d end_of_prev_7d of
              Inl e \<Rightarrow> Inl (e, k1)
            | Inr df_prev_7d \<Rightarrow>
                (let k2 = k1\<lparr>kwh_previous_7_days := power_sum df_prev_7d * 0.25\<rparr>;
                     k3 = (if kwh_previous_7_days k2 > 0
                           then k2\<lparr>weekly_delta_percent :=
                                  ((kwh_last_7_days k2 - kwh_previous_7_days k2)
                                     / kwh_previous_7_days k2) * 100\<rparr>
                           else k2)
                 in Inr (k3\<lparr>status_data_available := True\<rparr>)))
         else Inr k1)"

definition kpi_tou :: "reading list \<Rightarrow> kpis \<Rightarrow> kpis" where
  "kpi_tou df_history k0 =
     (let df_last_30d = map analysis_of (last_offset df_history (days 30));
          k1 = k0\<lparr>peak_kwh :=
                 sum_list (map kwh (filter (\<lambda>r. tou_category r = peak) df_last_30d))\<rparr>;
          k2 = k1\<lparr>off_peak_kwh :=
                 sum_list (map kwh (filter (\<lambda>r. tou_category r = off_peak) df_last_30d))\<rparr>
      in k2\<lparr>latest_data := Some (last df_history)\<rparr>)"

definition try_body :: "reading list \<Rightarrow> kpis \<Rightarrow> (error \<times> kpis) + kpis" where
  "try_body df_history k0 =
     (case kpi_today df_history (kpi_projected df_history k0) of
        Inl x \<Rightarrow> Inl x
      | Inr k1 \<Rightarrow>
          (case kpi_month df_history k1 of
             Inl x \<Rightarrow> Inl x
           | Inr k2 \<Rightarrow>
               (case kpi_week df_history k2 of
                  Inl x \<Rightarrow> Inl x
                | Inr k3 \<Rightarrow> Inr (kpi_tou df_history k3))))"

text \<open>
  \<open>get_core_kpis\<close>: the \<open>except\<close> branch reports the exception and returns \<open>kpis\<close>, the
  dictionary the \<open>try\<close> block has been updating.
\<close>

definition get_core_kpis :: "reading list \<Rightarrow> kpis" where
  "get_core_kpis df_history =
     (if df_history = [] then initial_kpis
      else case try_body df_history initial_kpis of
             Inl (e, k) \<Rightarrow> k
           | Inr k \<Rightarrow> k)"

section \<open>Anomaly detection\<close>

text \<open>
  The rolling statistics of \<open>show_analysis_page\<close> on the \<open>power_kW\<close> column. With
  \<open>center=True\<close> the window of position \<open>i\<close> ends before position
  \<open>i + 1 + (window_size - 1) div 2\<close> and starts \<open>window_size\<close> positions earlier, both
  ends clipped to the column (the truncating subtraction on \<open>nat\<close> is the clip at 0).
  A window with fewer than \<open>min_periods\<close> values gives \<open>NaN\<close>, here \<open>None\<close>; a comparison
  with \<open>NaN\<close> is false.
\<close>

definition window_size :: nat where
  "window_size = 96 * 7"

definition min_periods :: nat where
  "min_periods = 96"

definition rolling_window :: "real list \<Rightarrow> nat \<Rightarrow> real list" where
  "rolling_window xs i =
     (let offset = (window_size - 1) div 2;
          stop = min (i + 1 + offset) (length xs);
          start = (i + 1 + offset) - window_size
      in take (stop - start) (drop start xs))"

definition mean :: "real list \<Rightarrow> real" where
  "mean w = sum_list w / real (length w)"

text \<open>The sample standard deviation (\<open>ddof = 1\<close>).\<close>

definition std :: "real list \<Rightarrow> real" where
  "std w = sqrt (sum_list (map (\<lambda>x. (x - mean w)\<^sup>2) w) / (real (length w) - 1))"

definition rolling_avg :: "real list \<Rightarrow> nat \<Rightarrow> real option" where
  "rolling_avg xs i =
     (let w = rolling_window xs i in if length w \<ge> min_periods then Some (mean w) else None)"

definition rolling_std :: "real list \<Rightarrow> nat \<Rightarrow> real option" where
  "rolling_std xs i =
     (let w = rolling_window xs i in if length w \<ge> min_periods then Some (std w) else None)"

definition anomaly_threshold :: "real list \<Rightarrow> nat \<Rightarrow> real option" where
  "anomaly_threshold xs i =
     (case (rolling_avg xs i, rolling_std xs i) of
        (Some a, Some s) \<Rightarrow> Some (a + 2 * s)
      | _ \<Rightarrow> None)"

definition is_anomaly :: "real list \<Rightarrow> nat \<Rightarrow> bool" where
  "is_anomaly xs i =
     (case anomaly_threshold xs i of
        Some t \<Rightarrow> xs ! i > t
      | None \<Rightarrow> False)"

text \<open>The positions of the rows kept by the boolean mask, in row order.\<close>

definition anomalies :: "reading list \<Rightarrow> nat list" where
  "anomalies df_history =
     filter (is_anomaly (map power_kW df_history)) [0 ..< length df_history]"

text \<open>
  The rule as the specification words it: the window of position \<open>i\<close> in a column of \<open>n\<close>
  values is the 672 positions centred on \<open>i\<close> (336 before it, \<open>i\<close> itself and 335 after
  it) that exist, and the statistics are the mean and the sample standard deviation of
  the values at these positions.
\<close>

definition window_positions :: "nat \<Rightarrow> nat \<Rightarrow> nat set" where
  "window_positions n i = {j. j < n \<and> i \<le> j + 336 \<and> j < i + 336}"

definition window_mean :: "real list \<Rightarrow> nat \<Rightarrow> real" where
  "window_mean xs i =
     (\<Sum>j \<in> window_positions (length xs) i. xs ! j) / real (card (window_positions (length xs) i))"

definition window_std :: "real list \<Rightarrow> nat \<Rightarrow> real" where
  "window_std xs i =
     sqrt ((\<Sum>j \<in> window_positions (length xs) i. (xs ! j - window_mean xs i)\<^sup>2)
           / (real (card (window_positions (length xs) i)) - 1))"

section \<open>Properties of the calendar\<close>

text \<open>
  The month \<open>civil_from_days\<close> computes lies between 1 and 12, so a month number
  determines the year and the month, and \<open>label_month\<close> recovers the month.
\<close>

lemma div_step: "(x + 1) div k \<le> x div k + (1::int)" if "0 < k"
proof -
  have "(x + 1) div k \<le> (x + k) div k"
    using that by (intro zdiv_mono1) simp_all
  also have "\<dots> = x div k + 1"
    using that by simp
  finally show ?thesis .
qed

lemma quarter_step: "b div 4 \<le> (b + 1) div (4::int) \<and> (b + 1) div 4 - b div 4 \<le> 1"
  by linarith

lemma year_count_step: "year_count d \<le> year_count (d + 1)"
proof -
  have a: "(d + 1) div 1460 \<le> d div 1460 + 1"
    by (rule div_step) simp
  have c4: "d div 146096 = (d div 36524) div 4" "(d + 1) div 146096 = ((d + 1) div 36524) div 4"
    by (simp_all add: zdiv_zmult2_eq [symmetric])
  have b1: "d div 36524 \<le> (d + 1) div 36524"
    by (intro zdiv_mono1) simp_all
  have b2: "(d + 1) div 36524 \<le> d div 36524 + 1"
    by (rule div_step) simp
  have "(d + 1) div 36524 - ((d + 1) div 36524) div 4 \<ge> d div 36524 - (d div 36524) div 4"
    using b1 b2 by linarith
  then show ?thesis
    unfolding year_count_def c4 using a by linarith
qed

lemma year_count_mono: "d \<le> d' \<Longrightarrow> year_count d \<le> year_count d'"
proof (induction "nat (d' - d)" arbitrary: d')
  case 0
  then show ?case by simp
next
  case (Suc n)
  then have "n = nat ((d' - 1) - d)" "d \<le> d' - 1" by linarith+
  then have "year_count d \<le> year_count (d' - 1)"
    using Suc.hyps(1) by blast
  also have "\<dots> \<le> year_count d'"
    using year_count_step [of "d' - 1"] by simp
  finally show ?case .
qed

lemma year_start_checks:
  "\<forall>y \<in> set [1..399]. year_count (days_before_year y - 1) < 365 * y"
  by code_simp

lemma year_end_checks:
  "\<forall>y \<in> set [0..399]. 365 * (y + 1) \<le> year_count (days_before_year y + 367)"
  by code_simp

lemma div_365_lower: "365 * (n div 365) \<le> n" for n :: int
  by (simp add: algebra_simps)

lemma div_365_upper: "n < 365 * (n div 365 + 1)" for n :: int
proof -
  have "n = 365 * (n div 365) + n mod 365" by simp
  moreover have "n mod 365 < 365" by simp
  ultimately have "n < 365 * (n div 365) + 365" by linarith
  then show ?thesis by (simp add: algebra_simps)
qed

lemma day_of_year_range:
  assumes "0 \<le> doe" and "doe \<le> 146096"
  defines "yoe \<equiv> year_count doe div 365"
  shows "0 \<le> doe - days_before_year yoe \<and> doe - days_before_year yoe \<le> 366"
proof -
  have "year_count 0 \<le> year_count doe" "year_count doe \<le> year_count 146096"
    using assms(1,2) by (auto intro: year_count_mono)
  moreover have "year_count 0 = 0" "year_count 146096 = 145999"
    by (simp_all add: year_count_def)
  ultimately have n: "0 \<le> year_count doe" "year_count doe \<le> 145999"
    by simp_all
  have y: "0 \<le> yoe" "yoe \<le> 399"
    using n unfolding yoe_def by linarith+
  have q: "365 * yoe \<le> year_count doe" "year_count doe < 365 * (yoe + 1)"
    unfolding yoe_def by (rule div_365_lower, rule div_365_upper)
  have lower: "days_before_year yoe \<le> doe"
  proof (cases "yoe = 0")
    case True
    then show ?thesis using assms(1) by (simp add: days_before_year_def)
  next
    case False
    then have "yoe \<in> set [1..399]" using y by simp
    then have c: "year_count (days_before_year yoe - 1) < 365 * yoe"
      using year_start_checks by blast
    show ?thesis
    proof (rule ccontr)
      assume "\<not> days_before_year yoe \<le> doe"
      then have "doe \<le> days_before_year yoe - 1" by simp
      then have "year_count doe \<le> year_count (days_before_year yoe - 1)"
        by (rule year_count_mono)
      then show False using c q(1) by linarith
    qed
  qed
  have upper: "doe \<le> days_before_year yoe + 366"
  proof (rule ccontr)
    assume "\<not> doe \<le> days_before_year yoe + 366"
    then have "days_before_year yoe + 367 \<le> doe" by simp
    then have "year_count (days_before_year yoe + 367) \<le> year_count doe"
      by (rule year_count_mono)
    moreover have "yoe \<in> set [0..399]" using y by simp
    then have "365 * (yoe + 1) \<le> year_count (days_before_year yoe + 367)"
      using year_end_checks by blast
    ultimately show False using q(2) by linarith
  qed
  show ?thesis using lower upper by simp
qed

lemma civil_month_range:
  "1 \<le> fst (snd (civil_from_days z)) \<and> fst (snd (civil_from_days z)) \<le> 12"
proof -
  define doe where "doe = (z + 719468) - ((z + 719468) div 146097) * 146097"
  define doy where "doy = doe - days_before_year (year_count doe div 365)"
  have "doe = (z + 719468) mod 146097"
    unfolding doe_def by (simp add: minus_div_mult_eq_mod)
  then have "0 \<le> doe" "doe \<le> 146096"
    by simp_all
  then have r: "0 \<le> doy" "doy \<le> 366"
    using day_of_year_range [of doe] unfolding doy_def by simp_all
  have mp: "0 \<le> (5 * doy + 2) div 153" "(5 * doy + 2) div 153 \<le> 11"
    using r by linarith+
  have "fst (snd (civil_from_days z))
      = (if (5 * doy + 2) div 153 < 10 then (5 * doy + 2) div 153 + 3
         else (5 * doy + 2) div 153 - 9)"
    unfolding civil_from_days_def Let_def doy_def doe_def year_count_def days_before_year_def
    by (simp only: fst_conv snd_conv)
  then show ?thesis
    using mp by auto
qed

lemma month_range: "1 \<le> month t \<and> month t \<le> 12"
  unfolding month_def by (rule civil_month_range)

lemma label_month_month_number: "label_month (month_number t) = month t"
proof -
  have "(12 * year t + (month t - 1)) mod 12 = month t - 1"
    using month_range [of t] by (simp add: mod_pos_pos_trivial)
  then show ?thesis
    by (simp add: label_month_def month_number_def)
qed

lemma same_calendar_month:
  assumes "month_number t = month_number t'"
  shows "year t = year t' \<and> month t = month t'"
proof -
  have "12 * year t + (month t - 1) = 12 * year t' + (month t' - 1)"
    using assms by (simp add: month_number_def)
  then show ?thesis
    using month_range [of t] month_range [of t'] by presburger
qed

section \<open>Properties of the progressive cost calculator\<close>

lemma calculate_progressive_cost_closed_form:
  "calculate_progressive_cost k s = spec_progressive_cost k s"
  unfolding calculate_progressive_cost_def PROGRESSIVE_RATES_def spec_progressive_cost_def
    bracket_charge_def
  by (cases s) (simp_all add: Let_def min_def max_def)

lemma bracket_charge_mono:
  assumes "a \<le> b" and "0 \<le> rate"
  shows "bracket_charge a lower cap rate \<le> bracket_charge b lower cap rate"
proof -
  have "min (max 0 (a - lower)) cap \<le> min (max 0 (b - lower)) cap"
    using assms(1) by (simp add: min_def max_def)
  then show ?thesis
    unfolding bracket_charge_def using assms(2) by (rule mult_right_mono)
qed

lemma spec_progressive_cost_mono:
  assumes "a \<le> b"
  shows "spec_progressive_cost a s \<le> spec_progressive_cost b s"
proof -
  have top: "max 0 (a - 1000) * r \<le> max 0 (b - 1000) * r" if "0 \<le> r" for r :: real
    using assms that by (intro mult_right_mono) (simp_all add: max_def)
  show ?thesis
    unfolding spec_progressive_cost_def
    by (intro add_mono bracket_charge_mono top assms) simp_all
qed

lemma calculate_progressive_cost_nonpositive:
  "k \<le> 0 \<Longrightarrow> calculate_progressive_cost k s = 0"
  by (simp add: calculate_progressive_cost_def PROGRESSIVE_RATES_def)

text \<open>
  C3. For every consumption and season flag, the loop over the six brackets charges each
  bracket, in ascending order, on the part of the consumption that falls into it
  (the minimum of what remains and the bracket's capacity) at the season's rate, the last
  bracket taking everything above 1000 kWh: the result is the closed form
  \<open>spec_progressive_cost\<close>. The cost of 0 kWh is 0, a negative consumption costs 0, and
  no cost is negative.
\<close>

theorem progressive_cost_bracket_walk:
  "calculate_progressive_cost k s = spec_progressive_cost k s
   \<and> calculate_progressive_cost 0 s = 0
   \<and> (k < 0 \<longrightarrow> calculate_progressive_cost k s = 0)
   \<and> 0 \<le> calculate_progressive_cost k s"
proof (intro conjI impI)
  show "calculate_progressive_cost k s = spec_progressive_cost k s"
    by (rule calculate_progressive_cost_closed_form)
  show "calculate_progressive_cost 0 s = 0"
    by (simp add: calculate_progressive_cost_nonpositive)
  show "calculate_progressive_cost k s = 0" if "k < 0"
    using that by (simp add: calculate_progressive_cost_nonpositive)
  have "spec_progressive_cost 0 s \<le> spec_progressive_cost k s" if "0 \<le> k"
    using that by (rule spec_progressive_cost_mono)
  moreover have "spec_progressive_cost 0 s = 0"
    by (simp add: spec_progressive_cost_def bracket_charge_def)
  ultimately show "0 \<le> calculate_progressive_cost k s"
    by (cases "0 \<le> k")
       (simp_all add: calculate_progressive_cost_closed_form [symmetric]
          calculate_progressive_cost_nonpositive)
qed

theorem progressive_cost_bracket_walk_witness:
  "(-5 :: real) < 0 \<and> calculate_progressive_cost (-5) True = 0
   \<and> calculate_progressive_cost 1234 True = spec_progressive_cost 1234 True
   \<and> spec_progressive_cost 1234 True = 6204.74"
  using progressive_cost_bracket_walk [of "-5" True] progressive_cost_bracket_walk [of 1234 True]
  by (simp add: spec_progressive_cost_def bracket_charge_def)

text \<open>
  C8. 120 kWh outside summer cost 120 * 1.68 = 201.6: the first bracket takes all of it,
  nothing remains, and the loop leaves at the second bracket with the cost unchanged.
\<close>

theorem progressive_cost_first_boundary:
  "calculate_progressive_cost 120 False = 120 * 1.68
   \<and> calculate_progressive_cost 120 False = 201.6
   \<and> progressive_loop PROGRESSIVE_RATES 2 0 120
       = progressive_loop (tl PROGRESSIVE_RATES) 2 (120 * 1.68) 0
   \<and> progressive_loop (tl PROGRESSIVE_RATES) 2 (120 * 1.68) 0 = 120 * 1.68"
  by (simp add: calculate_progressive_cost_def PROGRESSIVE_RATES_def)

text \<open>
  C9. The progressive cost is monotone in the consumption: for 0 \<le> a \<le> b and either
  season flag, the cost of a kWh is at most the cost of b kWh.
\<close>

theorem progressive_cost_monotone:
  assumes "0 \<le> a" and "a \<le> b"
  shows "calculate_progressive_cost a s \<le> calculate_progressive_cost b s"
  using spec_progressive_cost_mono [OF assms(2)]
  by (simp add: calculate_progressive_cost_closed_form)

theorem progressive_cost_monotone_witness:
  "(0::real) \<le> 100 \<and> (100::real) \<le> 400
   \<and> calculate_progressive_cost 100 True \<le> calculate_progressive_cost 400 True"
  using progressive_cost_monotone [of 100 400 True] by simp

section \<open>Properties of the time-of-use classifier\<close>

lemma dayofweek_range: "0 \<le> dayofweek t \<and> dayofweek t < 7"
  by (simp add: dayofweek_def)

text \<open>
  C4. For every timestamp, the season flag is set exactly in the months 6 to 9; on
  Saturday and Sunday (\<open>dayofweek\<close> 5 and 6) the category is off-peak whatever the season
  and hour; on the other days the category is peak exactly for the hours 9 to 23 in summer
  and for the hours 6 to 10 and 14 to 23 outside summer; and the rate is the entry of the
  rate table for that season and category.
\<close>

theorem get_tou_details_classification:
  assumes "get_tou_details t = (cat, rate, summer_flag)"
  shows "(summer_flag \<longleftrightarrow> month t \<in> {6, 7, 8, 9})
    \<and> (dayofweek t = 5 \<or> dayofweek t = 6 \<longrightarrow> cat = off_peak)
    \<and> (dayofweek t \<in> {0, 1, 2, 3, 4} \<and> summer_flag \<longrightarrow>
          (cat = peak \<longleftrightarrow> 9 \<le> hour t \<and> hour t < 24))
    \<and> (dayofweek t \<in> {0, 1, 2, 3, 4} \<and> \<not> summer_flag \<longrightarrow>
          (cat = peak \<longleftrightarrow> (6 \<le> hour t \<and> hour t < 11) \<or> (14 \<le> hour t \<and> hour t < 24)))
    \<and> rate = rates (if summer_flag then summer else nonsummer) cat
    \<and> dayofweek t \<in> {0, 1, 2, 3, 4, 5, 6}"
proof -
  have m: "(6 \<le> month t \<and> month t \<le> 9) \<longleftrightarrow> month t \<in> {6, 7, 8, 9}"
    by auto
  have d: "dayofweek t \<in> {0, 1, 2, 3, 4, 5, 6}"
    using dayofweek_range [of t] by auto
  show ?thesis
    using assms d unfolding get_tou_details_def Let_def m
    by (auto split: if_splits)
qed

text \<open>
  The classification at 2024-06-01 10:00 (a Saturday in summer), at 2024-01-03 12:00
  (a Wednesday outside summer, in the gap between the two peak windows) and at
  2024-07-03 09:00 (a Wednesday in summer).
\<close>

theorem get_tou_details_classification_witness:
  "get_tou_details 1717236000 = (off_peak, 1.85, True)
   \<and> dayofweek 1717236000 = 5 \<and> month 1717236000 = 6 \<and> hour 1717236000 = 10
   \<and> get_tou_details 1704283200 = (off_peak, 1.78, False)
   \<and> dayofweek 1704283200 = 2 \<and> month 1704283200 = 1 \<and> hour 1704283200 = 12
   \<and> get_tou_details 1719997200 = (peak, 4.71, True)
   \<and> dayofweek 1719997200 = 2 \<and> month 1719997200 = 7 \<and> hour 1719997200 = 9"
proof -
  have e1: "get_tou_details 1717236000 = (off_peak, 1.85, True)"
    by code_simp
  have e2: "get_tou_details 1704283200 = (off_peak, 1.78, False)"
    by code_simp
  have e3: "get_tou_details 1719997200 = (peak, 4.71, True)"
    by code_simp
  have f: "dayofweek 1717236000 = 5" "hour 1717236000 = 10" "month 1717236000 = 6"
    "dayofweek 1704283200 = 2" "hour 1704283200 = 12" "month 1704283200 = 1"
    "dayofweek 1719997200 = 2" "hour 1719997200 = 9" "month 1719997200 = 7"
    by code_simp+
  show ?thesis
    using get_tou_details_classification [OF e1] get_tou_details_classification [OF e2]
      get_tou_details_classification [OF e3] e1 e2 e3 f
    by simp
qed

section \<open>Properties of the tariff comparison\<close>

lemma index_analysis_of [simp]: "index (analysis_of r) = index r"
  by (simp add: analysis_of_def split: prod.splits)

lemma kwh_analysis_of [simp]: "kwh (analysis_of r) = power_kW r * 0.25"
  by (simp add: analysis_of_def split: prod.splits)

lemma tou_flow_cost_analysis_of [simp]:
  "tou_flow_cost (analysis_of r) = power_kW r * 0.25 * fst (snd (get_tou_details (index r)))"
  by (simp add: analysis_of_def split: prod.splits)

lemma filter_month_analysis:
  "filter (\<lambda>r. month_number (index r) = k) (map analysis_of df)
     = map analysis_of (filter (\<lambda>r. month_number (index r) = k) df)"
  by (induction df) simp_all

lemma month_bins_analysis: "month_bins (map analysis_of df) = month_bins df"
  by (simp add: month_bins_def o_def)

lemma sum_list_indicator:
  "distinct ks \<Longrightarrow> (\<Sum>k\<leftarrow>ks. if a = k then (c::real) else 0) = (if a \<in> set ks then c else 0)"
  by (induction ks) auto

lemma sum_list_bins:
  fixes f :: "'a \<Rightarrow> real"
  assumes "distinct ks" and "\<forall>x \<in> set xs. key x \<in> set ks"
  shows "(\<Sum>k\<leftarrow>ks. \<Sum>x\<leftarrow>filter (\<lambda>x. key x = k) xs. f x) = (\<Sum>x\<leftarrow>xs. f x)"
  using assms(2)
proof (induction xs)
  case Nil
  then show ?case by simp
next
  case (Cons x xs)
  have "(\<Sum>k\<leftarrow>ks. \<Sum>y\<leftarrow>filter (\<lambda>y. key y = k) (x # xs). f y)
      = (\<Sum>k\<leftarrow>ks. (if key x = k then f x else 0) + (\<Sum>y\<leftarrow>filter (\<lambda>y. key y = k) xs. f y))"
    by (intro arg_cong [where f = sum_list] map_cong) auto
  also have "\<dots> = (\<Sum>k\<leftarrow>ks. if key x = k then f x else 0)
                  + (\<Sum>k\<leftarrow>ks. \<Sum>y\<leftarrow>filter (\<lambda>y. key y = k) xs. f y)"
    by (simp add: sum_list_addf)
  also have "\<dots> = f x + (\<Sum>y\<leftarrow>xs. f y)"
    using Cons assms(1) by (simp add: sum_list_indicator)
  finally show ?case by simp
qed

lemma month_bins_cover:
  "\<forall>r \<in> set df. month_number (index r) \<in> set (month_bins df)"
proof
  fix r assume r: "r \<in> set df"
  let ?S = "set (map (\<lambda>r. month_number (index r)) df)"
  have "finite ?S" "month_number (index r) \<in> ?S"
    using r by auto
  then have "Min ?S \<le> month_number (index r)" "month_number (index r) \<le> Max ?S"
    by (auto intro: Min_le Max_ge)
  moreover have "df \<noteq> []" using r by auto
  ultimately show "month_number (index r) \<in> set (month_bins df)"
    by (simp add: month_bins_def)
qed

lemma distinct_month_bins: "distinct (month_bins df)"
  by (simp add: month_bins_def)

lemma month_bins_single:
  assumes "df \<noteq> []" and "\<forall>r \<in> set df. month_number (index r) = k"
  shows "month_bins df = [k]"
proof -
  have "set (map (\<lambda>r. month_number (index r)) df) = {k}"
    using assms by (cases df) auto
  then show ?thesis
    using assms(1) by (simp add: month_bins_def)
qed

lemma resample_MS_single:
  assumes "df \<noteq> []" and "\<forall>r \<in> set df. month_number (index r) = k"
  shows "resample_MS df = [(k, df)]"
  using assms by (simp add: resample_MS_def month_bins_single [OF assms])


lemma analyze_single:
  assumes "df \<noteq> []" and "\<forall>r \<in> set df. month_number (index r) = k"
  shows "fst (analyze_pricing_plans df) =
     \<lparr>total_kwh = (\<Sum>r\<leftarrow>df. power_kW r * 0.25),
      cost_progressive =
        calculate_progressive_cost (\<Sum>r\<leftarrow>df. power_kW r * 0.25)
          (6 \<le> label_month k \<and> label_month k \<le> 9),
      cost_tou = (\<Sum>r\<leftarrow>df. power_kW r * 0.25 * fst (snd (get_tou_details (index r))))
                 + 75 + max 0 ((\<Sum>r\<leftarrow>df. power_kW r * 0.25) - 2000) * 0.99\<rparr>"
proof -
  have a: "map analysis_of df \<noteq> []"
    "\<forall>r \<in> set (map analysis_of df). month_number (index r) = k"
    using assms by auto
  show ?thesis
    by (simp add: analyze_pricing_plans_def monthly_tou_def monthly_prog_def
        resample_MS_single [OF a] Let_def o_def basic_fee_monthly_def
        surcharge_kwh_threshold_def surcharge_rate_per_kwh_def)
qed



lemma rows_of_month_calendar:
  "rows_of_month (month_number t) df
     = filter (\<lambda>r. year (index r) = year t \<and> month (index r) = month t) df"
proof -
  have "month_number (index r) = month_number t
      \<longleftrightarrow> year (index r) = year t \<and> month (index r) = month t" for r :: reading
    using same_calendar_month [of "index r" t] by (auto simp: month_number_def)
  then show ?thesis
    by (simp add: rows_of_month_def)
qed

lemma month_bins_spec:
  "sorted (month_bins df) \<and> distinct (month_bins df)
   \<and> set (month_bins df)
       = {k. \<exists>r \<in> set df. \<exists>r' \<in> set df.
               month_number (index r) \<le> k \<and> k \<le> month_number (index r')}"
proof (cases "df = []")
  case True
  then show ?thesis by (simp add: month_bins_def)
next
  case False
  define S where "S = set (map (\<lambda>r. month_number (index r)) df)"
  define lo where "lo = Min S"
  define hi where "hi = Max S"
  have fin: "finite S" and ne: "S \<noteq> {}"
    using False by (simp_all add: S_def)
  have "lo \<in> S" "hi \<in> S"
    unfolding lo_def hi_def using fin ne by (rule Min_in, rule Max_in)
  then obtain r r' where rr: "r \<in> set df" "month_number (index r) = lo"
    "r' \<in> set df" "month_number (index r') = hi"
    unfolding S_def by auto
  have bounds: "lo \<le> month_number (index a) \<and> month_number (index a) \<le> hi"
    if "a \<in> set df" for a
  proof -
    have "month_number (index a) \<in> S"
      using that by (simp add: S_def)
    then show ?thesis
      unfolding lo_def hi_def using fin by (simp add: Min_le Max_ge)
  qed
  have "{lo..hi}
      = {k. \<exists>r \<in> set df. \<exists>r' \<in> set df.
              month_number (index r) \<le> k \<and> k \<le> month_number (index r')}"
  proof (intro set_eqI iffI)
    fix k assume "k \<in> {lo..hi}"
    then have "month_number (index r) \<le> k \<and> k \<le> month_number (index r')"
      using rr(2,4) by simp
    then show "k \<in> {k. \<exists>r \<in> set df. \<exists>r' \<in> set df.
              month_number (index r) \<le> k \<and> k \<le> month_number (index r')}"
      using rr(1,3) by blast
  next
    fix k assume "k \<in> {k. \<exists>r \<in> set df. \<exists>r' \<in> set df.
              month_number (index r) \<le> k \<and> k \<le> month_number (index r')}"
    then obtain a b where ab: "a \<in> set df" "b \<in> set df"
      "month_number (index a) \<le> k" "k \<le> month_number (index b)"
      by blast
    show "k \<in> {lo..hi}"
      using ab(3,4) bounds [OF ab(1)] bounds [OF ab(2)] by simp
  qed
  moreover have "month_bins df = [lo..hi]"
    using False by (simp add: month_bins_def lo_def hi_def S_def)
  ultimately show ?thesis
    by simp
qed

lemma monthly_tou_table:
  "map (\<lambda>m. (tou_label m, tou_kwh m, flow_cost m)) (monthly_tou (map analysis_of df))
     = map (\<lambda>k. (k, month_energy k df, month_flow_cost k df)) (month_bins df)"
  by (simp add: monthly_tou_def resample_MS_def month_bins_analysis filter_month_analysis
      month_energy_def month_flow_cost_def rows_of_month_def Let_def o_def)

lemma monthly_prog_table:
  "map (\<lambda>m. (prog_label m, prog_kwh m, prog_is_summer m)) (monthly_prog (map analysis_of df))
     = map (\<lambda>k. (k, month_energy k df, 6 \<le> label_month k \<and> label_month k \<le> 9)) (month_bins df)"
  by (simp add: monthly_prog_def resample_MS_def month_bins_analysis filter_month_analysis
      month_energy_def rows_of_month_def Let_def o_def)

lemma cost_tou_by_month:
  "cost_tou (fst (analyze_pricing_plans df))
     = (\<Sum>k\<leftarrow>month_bins df. month_flow_cost k df + 75 + max 0 (month_energy k df - 2000) * 0.99)"
  by (simp add: analyze_pricing_plans_def monthly_tou_def resample_MS_def month_bins_analysis
      filter_month_analysis month_energy_def month_flow_cost_def rows_of_month_def Let_def o_def
      basic_fee_monthly_def surcharge_kwh_threshold_def surcharge_rate_per_kwh_def)

lemma cost_progressive_by_month:
  "cost_progressive (fst (analyze_pricing_plans df))
     = (\<Sum>k\<leftarrow>month_bins df.
          calculate_progressive_cost (month_energy k df) (6 \<le> label_month k \<and> label_month k \<le> 9))"
  by (simp add: analyze_pricing_plans_def monthly_prog_def resample_MS_def month_bins_analysis
      filter_month_analysis month_energy_def rows_of_month_def Let_def o_def)

lemma month_energy_total:
  "(\<Sum>k\<leftarrow>month_bins df. month_energy k df) = total_kwh (fst (analyze_pricing_plans df))"
proof -
  have "(\<Sum>k\<leftarrow>month_bins df. month_energy k df) = (\<Sum>r\<leftarrow>df. power_kW r * 0.25)"
    unfolding month_energy_def rows_of_month_def
    by (rule sum_list_bins [OF distinct_month_bins month_bins_cover])
  then show ?thesis
    by (simp add: analyze_pricing_plans_def Let_def o_def)
qed

text \<open>
  C6. For a non-empty frame whose rows all lie in one calendar month (year \<open>y\<close>, month
  \<open>m\<close>), the summary is the monthly formulas applied to that month: the energy is the sum
  of \<open>power_kW * 0.25\<close>, the time-of-use cost is the sum of \<open>power_kW * 0.25 * rate\<close> over
  the rows plus the basic fee 75 plus 0.99 for every kWh above 2000, and the progressive
  cost is \<open>calculate_progressive_cost\<close> of that energy at the summer rates exactly when
  \<open>m\<close> is one of the months 6 to 9.
\<close>

theorem analyze_single_month:
  assumes "df \<noteq> []" and "\<forall>r \<in> set df. year (index r) = y \<and> month (index r) = m"
  shows "total_kwh (fst (analyze_pricing_plans df)) = (\<Sum>r\<leftarrow>df. power_kW r * 0.25)
     \<and> cost_tou (fst (analyze_pricing_plans df))
         = (\<Sum>r\<leftarrow>df. power_kW r * 0.25 * fst (snd (get_tou_details (index r))))
           + 75 + max 0 ((\<Sum>r\<leftarrow>df. power_kW r * 0.25) - 2000) * 0.99
     \<and> cost_progressive (fst (analyze_pricing_plans df))
         = calculate_progressive_cost (\<Sum>r\<leftarrow>df. power_kW r * 0.25) (6 \<le> m \<and> m \<le> 9)"
proof -
  obtain r0 where r0: "r0 \<in> set df"
    using assms(1) by (cases df) auto
  have k: "\<forall>r \<in> set df. month_number (index r) = month_number (index r0)"
    using assms(2) r0 by (simp add: month_number_def)
  have "label_month (month_number (index r0)) = m"
    using label_month_month_number [of "index r0"] assms(2) r0 by simp
  then show ?thesis
    by (simp add: analyze_single [OF assms(1) k])
qed

text \<open>
  Two readings in July 2024: 6000 kW on Wednesday the 3rd at 09:00 (1500 kWh at the
  summer peak rate 4.71) and 4000 kW on Saturday the 6th at 10:00 (1000 kWh at the summer
  off-peak rate 1.85). The 2500 kWh pay the surcharge on 500 kWh and the summer
  brackets, 16915.1, where the non-summer brackets would give 13464.3.
\<close>

theorem analyze_single_month_witness:
  "[\<lparr>index = 1719997200, power_kW = 6000\<rparr>, \<lparr>index = 1720260000, power_kW = 4000\<rparr>] \<noteq> []
   \<and> year 1719997200 = 2024 \<and> month 1719997200 = 7
   \<and> year 1720260000 = 2024 \<and> month 1720260000 = 7
   \<and> fst (snd (get_tou_details 1719997200)) = 4.71
   \<and> fst (snd (get_tou_details 1720260000)) = 1.85
   \<and> fst (analyze_pricing_plans
        [\<lparr>index = 1719997200, power_kW = 6000\<rparr>, \<lparr>index = 1720260000, power_kW = 4000\<rparr>])
       = \<lparr>total_kwh = 2500, cost_progressive = 16915.1, cost_tou = 9485\<rparr>
   \<and> calculate_progressive_cost 2500 True = 16915.1
   \<and> calculate_progressive_cost 2500 False = 13464.3"
proof -
  let ?df = "[\<lparr>index = 1719997200, power_kW = 6000\<rparr>, \<lparr>index = 1720260000, power_kW = 4000\<rparr>]"
  have n: "year 1719997200 = 2024" "month 1719997200 = 7"
    "year 1720260000 = 2024" "month 1720260000 = 7"
    by code_simp+
  then have h: "\<forall>r \<in> set ?df. year (index r) = 2024 \<and> month (index r) = 7"
    by simp
  have m: "fst (snd (get_tou_details 1719997200)) = 4.71"
    "fst (snd (get_tou_details 1720260000)) = 1.85"
    "calculate_progressive_cost 2500 True = 16915.1"
    "calculate_progressive_cost 2500 False = 13464.3"
    by code_simp+
  have "fst (analyze_pricing_plans ?df)
       = \<lparr>total_kwh = 2500, cost_progressive = 16915.1, cost_tou = 9485\<rparr>"
    using analyze_single_month [OF _ h] m
    by (cases "fst (analyze_pricing_plans ?df)") simp
  then show ?thesis
    using n m by simp
qed



text \<open>
  C10. For every frame, the energy of each detail row is \<open>power_kW * 0.25\<close> and the
  summary's \<open>total_kwh\<close> is the sum of these. The monthly table of the time-of-use bill and
  the monthly table of the progressive bill both have one row for every calendar month
  from the earliest reading's to the latest reading's, in order, and the energy in the row
  of month \<open>k\<close> is in both tables the energy of the readings of that calendar month, and of
  no others: a month number stands for one year and month, and its label carries that
  month. The monthly energies add up to \<open>total_kwh\<close>, and each bill is the sum over these
  months of its monthly formula applied to the month's energy.
\<close>

theorem analyze_pricing_plans_energy:
  "map kwh (snd (analyze_pricing_plans df)) = map (\<lambda>r. power_kW r * 0.25) df
   \<and> total_kwh (fst (analyze_pricing_plans df)) = sum_list (map kwh (snd (analyze_pricing_plans df)))
   \<and> map (\<lambda>m. (tou_label m, tou_kwh m, flow_cost m)) (monthly_tou (snd (analyze_pricing_plans df)))
       = map (\<lambda>k. (k, month_energy k df, month_flow_cost k df)) (month_bins df)
   \<and> map (\<lambda>m. (prog_label m, prog_kwh m, prog_is_summer m))
         (monthly_prog (snd (analyze_pricing_plans df)))
       = map (\<lambda>k. (k, month_energy k df, 6 \<le> label_month k \<and> label_month k \<le> 9)) (month_bins df)
   \<and> sorted (month_bins df) \<and> distinct (month_bins df)
   \<and> set (month_bins df)
       = {k. \<exists>r \<in> set df. \<exists>r' \<in> set df.
               month_number (index r) \<le> k \<and> k \<le> month_number (index r')}
   \<and> rows_of_month (month_number t) df
       = filter (\<lambda>r. year (index r) = year t \<and> month (index r) = month t) df
   \<and> label_month (month_number t) = month t
   \<and> (\<Sum>k\<leftarrow>month_bins df. month_energy k df) = total_kwh (fst (analyze_pricing_plans df))
   \<and> cost_tou (fst (analyze_pricing_plans df))
       = (\<Sum>k\<leftarrow>month_bins df.
            month_flow_cost k df + 75 + max 0 (month_energy k df - 2000) * 0.99)
   \<and> cost_progressive (fst (analyze_pricing_plans df))
       = (\<Sum>k\<leftarrow>month_bins df.
            calculate_progressive_cost (month_energy k df)
              (6 \<le> label_month k \<and> label_month k \<le> 9))"
proof -
  have d: "snd (analyze_pricing_plans df) = map analysis_of df"
    by (simp add: analyze_pricing_plans_def Let_def)
  have t: "total_kwh (fst (analyze_pricing_plans df)) = sum_list (map kwh (map analysis_of df))"
    by (simp add: analyze_pricing_plans_def Let_def)
  have k: "map kwh (map analysis_of df) = map (\<lambda>r. power_kW r * 0.25) df"
    by simp
  show ?thesis
    unfolding d
    using t k monthly_tou_table [of df] monthly_prog_table [of df] month_bins_spec [of df]
      rows_of_month_calendar [of t df] label_month_month_number [of t] month_energy_total [of df]
      cost_tou_by_month [of df] cost_progressive_by_month [of df]
    by (intro conjI) simp_all
qed

text \<open>
  800 kW on 2024-01-31 at 23:45 and 800 kW on 2024-02-01 at 00:00: two monthly rows of
  200 kWh each in both tables, 400 kWh in all, and a progressive bill of 748.8 where
  400 kWh in one row would cost 867.3.
\<close>

theorem analyze_pricing_plans_energy_witness:
  "month_bins [\<lparr>index = 1706744700, power_kW = 800\<rparr>, \<lparr>index = 1706745600, power_kW = 800\<rparr>]
     = [24288, 24289]
   \<and> map (\<lambda>m. (tou_label m, tou_kwh m, flow_cost m))
        (monthly_tou (snd (analyze_pricing_plans
           [\<lparr>index = 1706744700, power_kW = 800\<rparr>, \<lparr>index = 1706745600, power_kW = 800\<rparr>])))
       = [(24288, 200, 896), (24289, 200, 356)]
   \<and> map (\<lambda>m. (prog_label m, prog_kwh m, prog_is_summer m))
        (monthly_prog (snd (analyze_pricing_plans
           [\<lparr>index = 1706744700, power_kW = 800\<rparr>, \<lparr>index = 1706745600, power_kW = 800\<rparr>])))
       = [(24288, 200, False), (24289, 200, False)]
   \<and> total_kwh (fst (analyze_pricing_plans
        [\<lparr>index = 1706744700, power_kW = 800\<rparr>, \<lparr>index = 1706745600, power_kW = 800\<rparr>])) = 400
   \<and> cost_progressive (fst (analyze_pricing_plans
        [\<lparr>index = 1706744700, power_kW = 800\<rparr>, \<lparr>index = 1706745600, power_kW = 800\<rparr>])) = 748.8
   \<and> cost_tou (fst (analyze_pricing_plans
        [\<lparr>index = 1706744700, power_kW = 800\<rparr>, \<lparr>index = 1706745600, power_kW = 800\<rparr>])) = 1402
   \<and> label_month (month_number 1706744700) = 1 \<and> month 1706744700 = 1
   \<and> calculate_progressive_cost 400 False = 867.3"
proof -
  let ?df = "[\<lparr>index = 1706744700, power_kW = 800\<rparr>, \<lparr>index = 1706745600, power_kW = 800\<rparr>]"
  have b: "month_bins ?df = [24288, 24289]"
    by code_simp
  have e: "month_energy 24288 ?df = 200" "month_energy 24289 ?df = 200"
    "month_flow_cost 24288 ?df = 896" "month_flow_cost 24289 ?df = 356"
    "label_month 24288 = 1" "label_month 24289 = 2" "month 1706744700 = 1"
    "calculate_progressive_cost 200 False = 374.4"
    "calculate_progressive_cost 400 False = 867.3"
    by code_simp+
  show ?thesis
    using analyze_pricing_plans_energy [of ?df 1706744700] b e by simp
qed

section \<open>Properties of the KPI aggregator\<close>

lemma loc_from_sorted:
  "sorted (map index df) \<Longrightarrow>
     loc_from df a = Inr (drop (length (takeWhile (\<lambda>t. t < a) (map index df))) df)"
  by (simp add: loc_from_def slice_bound_left_def)

lemma sorted_le_last: "sorted xs \<Longrightarrow> x \<in> set xs \<Longrightarrow> x \<le> last (xs :: int list)"
  by (induction xs) auto

lemma index_last_sorted:
  assumes "df \<noteq> []" and "sorted (map index df)"
  shows "index (last df) = index_max df"
proof -
  have "Max (set (map index df)) = last (map index df)"
  proof (rule Max_eqI)
    show "finite (set (map index df))" by simp
    show "y \<le> last (map index df)" if "y \<in> set (map index df)" for y
      using assms(2) that by (rule sorted_le_last)
    show "last (map index df) \<in> set (map index df)"
      using assms(1) by (intro last_in_set) simp
  qed
  then show ?thesis
    using assms(1) by (simp add: index_max_def last_map)
qed

lemma dropWhile_sorted_filter:
  "sorted (map index df) \<Longrightarrow>
     dropWhile (\<lambda>r. index r \<le> c) df = filter (\<lambda>r. c < index r) df"
proof (induction df)
  case Nil
  then show ?case by simp
next
  case (Cons x xs)
  show ?case
  proof (cases "index x \<le> c")
    case True
    then show ?thesis using Cons by simp
  next
    case False
    then have "\<forall>r \<in> set xs. c < index r"
      using Cons.prems by auto
    then have "filter (\<lambda>r. c < index r) xs = xs"
      by simp
    then show ?thesis using False by simp
  qed
qed

lemma searchsorted_right_sorted:
  assumes "sorted arr" and "lo \<le> hi" and "hi \<le> length arr"
    and "\<forall>i < lo. arr ! i \<le> key" and "\<forall>i. hi \<le> i \<and> i < length arr \<longrightarrow> key < arr ! i"
  shows "searchsorted_right arr key lo hi = length (takeWhile (\<lambda>t. t \<le> key) arr)"
  using assms
proof (induction arr key lo hi rule: searchsorted_right.induct)
  case (1 arr key lo hi)
  show ?case
  proof (cases "lo < hi")
    case False
    then have eq: "lo = hi" using "1.prems"(2) by simp
    have "takeWhile (\<lambda>t. t \<le> key) arr = take lo arr"
    proof (rule takeWhile_eq_take_P_nth)
      show "arr ! i \<le> key" if "i < lo" "i < length arr" for i
        using that "1.prems"(4) by simp
      show "\<not> arr ! lo \<le> key" if "lo < length arr"
        using that "1.prems"(5) eq by auto
    qed
    then have "length (takeWhile (\<lambda>t. t \<le> key) arr) = lo"
      using "1.prems"(3) eq by simp
    then show ?thesis
      using False by (simp add: searchsorted_right.simps [of arr key lo hi])
  next
    case True
    define mid where "mid = lo + (hi - lo) div 2"
    have m: "lo \<le> mid" "mid < hi" "mid < length arr"
      using True "1.prems"(3) unfolding mid_def by linarith+
    show ?thesis
    proof (cases "arr ! mid \<le> key")
      case le: True
      have "\<forall>i < mid + 1. arr ! i \<le> key"
      proof (intro allI impI)
        fix i assume "i < mid + 1"
        then have "i \<le> mid" by simp
        then have "arr ! i \<le> arr ! mid"
          using "1.prems"(1) m(3) by (simp add: sorted_iff_nth_mono)
        then show "arr ! i \<le> key" using le by simp
      qed
      then have "searchsorted_right arr key (mid + 1) hi = length (takeWhile (\<lambda>t. t \<le> key) arr)"
        using "1.IH"(1) [OF True mid_def le] "1.prems" m by simp
      then show ?thesis
        using True le by (simp add: searchsorted_right.simps [of arr key lo hi] mid_def Let_def)
    next
      case gt: False
      have "\<forall>i. mid \<le> i \<and> i < length arr \<longrightarrow> key < arr ! i"
      proof (intro allI impI)
        fix i assume "mid \<le> i \<and> i < length arr"
        then have "arr ! mid \<le> arr ! i"
          using "1.prems"(1) by (simp add: sorted_iff_nth_mono)
        then show "key < arr ! i" using gt by simp
      qed
      then have "searchsorted_right arr key lo mid = length (takeWhile (\<lambda>t. t \<le> key) arr)"
        using "1.IH"(2) [OF True mid_def gt] "1.prems" m by simp
      then show ?thesis
        using True gt by (simp add: searchsorted_right.simps [of arr key lo hi] mid_def Let_def)
    qed
  qed
qed

lemma drop_length_takeWhile_map:
  "drop (length (takeWhile P (map f xs))) xs = dropWhile (\<lambda>x. P (f x)) xs"
  by (induction xs) auto

lemma last_offset_sorted:
  assumes "df \<noteq> []" and "sorted (map index df)"
  shows "last_offset df offset = dropWhile (\<lambda>r. index r \<le> index (last df) - offset) df"
proof -
  have "searchsorted_right (map index df) (index (last df) - offset) 0 (length df)
      = length (takeWhile (\<lambda>t. t \<le> index (last df) - offset) (map index df))"
    using assms(2) by (intro searchsorted_right_sorted) simp_all
  then show ?thesis
    using assms(1) by (simp add: last_offset_def drop_length_takeWhile_map)
qed

lemma set_dropWhile_keeps: "x \<in> set xs \<Longrightarrow> \<not> P x \<Longrightarrow> x \<in> set (dropWhile P xs)"
  by (induction xs) auto

lemma kpi_week_short:
  assumes "df \<noteq> []" and "sorted (map index df)"
    and "r \<in> set df" and "index_max df - days 7 < index r" and "index r < index_min df + days 7"
  shows "kpi_week df k0 = Inr (k0\<lparr>kwh_last_7_days := power_sum (last_offset df (days 7)) * 0.25\<rparr>)"
proof -
  have "r \<in> set (last_offset df (days 7))"
    using assms by (simp add: last_offset_sorted index_last_sorted set_dropWhile_keeps)
  then have "index_min (last_offset df (days 7)) \<le> index r"
    by (simp add: index_min_def)
  then have "\<not> index_min (last_offset df (days 7)) - days 7 \<ge> index_min df"
    using assms(5) by simp
  then show ?thesis
    by (simp add: kpi_week_def Let_def)
qed

text \<open>
  C5, amended. For every non-empty, chronologically ordered history in which some reading
  lies less than 7 days before the latest timestamp and less than 7 days after the earliest
  one (every history that spans less than 7 days is one, and so is every history without
  gaps that spans less than 14 days minus its reading interval), the KPI set has
  \<open>status_data_available\<close> false and \<open>kwh_previous_7_days\<close> and \<open>weekly_delta_percent\<close> at 0.
  \<open>kwh_last_7_days\<close> is not left at 0: it is 0.25 times the sum of \<open>power_kW\<close> over the
  readings later than the latest timestamp minus 7 days.
\<close>

theorem weekly_kpis_short_history:
  assumes "df \<noteq> []" and "sorted (map index df)"
    and "\<exists>r \<in> set df. index_max df - days 7 < index r \<and> index r < index_min df + days 7"
  shows "\<not> status_data_available (get_core_kpis df)
     \<and> kwh_previous_7_days (get_core_kpis df) = 0
     \<and> weekly_delta_percent (get_core_kpis df) = 0
     \<and> kwh_last_7_days (get_core_kpis df)
         = (\<Sum>r\<leftarrow>filter (\<lambda>r. index_max df - days 7 < index r) df. power_kW r) * 0.25"
proof -
  obtain r where r: "r \<in> set df" "index_max df - days 7 < index r"
    "index r < index_min df + days 7"
    using assms(3) by blast
  have l7: "last_offset df (days 7) = filter (\<lambda>r. index_max df - days 7 < index r) df"
    using assms(1,2)
    by (simp add: last_offset_sorted dropWhile_sorted_filter index_last_sorted)
  show ?thesis
    using assms(1)
    by (simp add: get_core_kpis_def try_body_def kpi_today_def kpi_month_def
        loc_from_sorted [OF assms(2)] kpi_week_short [OF assms(1,2) r] kpi_tou_def
        kpi_projected_def Let_def initial_kpis_def l7 [symmetric] power_sum_def)
qed

text \<open>
  Three readings of 4, 8 and 4 kW on 2024-01-30 00:00, 2024-01-31 00:00 and
  2024-01-31 23:45: two days of history, 4 kWh in the last 7 days.
\<close>

theorem weekly_kpis_short_history_witness:
  "[\<lparr>index = 1706572800, power_kW = 4\<rparr>, \<lparr>index = 1706659200, power_kW = 8\<rparr>,
        \<lparr>index = 1706744700, power_kW = 4\<rparr>] \<noteq> []
   \<and> sorted (map index [\<lparr>index = 1706572800, power_kW = 4\<rparr>, \<lparr>index = 1706659200, power_kW = 8\<rparr>,
        \<lparr>index = 1706744700, power_kW = 4\<rparr>])
   \<and> \<not> status_data_available (get_core_kpis
        [\<lparr>index = 1706572800, power_kW = 4\<rparr>, \<lparr>index = 1706659200, power_kW = 8\<rparr>,
        \<lparr>index = 1706744700, power_kW = 4\<rparr>])
   \<and> kwh_last_7_days (get_core_kpis
        [\<lparr>index = 1706572800, power_kW = 4\<rparr>, \<lparr>index = 1706659200, power_kW = 8\<rparr>,
        \<lparr>index = 1706744700, power_kW = 4\<rparr>]) = 4"
proof -
  let ?df = "[\<lparr>index = 1706572800, power_kW = 4\<rparr>, \<lparr>index = 1706659200, power_kW = 8\<rparr>,
        \<lparr>index = 1706744700, power_kW = 4\<rparr>]"
  have h1: "?df \<noteq> []" by simp
  have h2: "sorted (map index ?df)" by simp
  have h3: "\<exists>r \<in> set ?df. index_max ?df - days 7 < index r \<and> index r < index_min ?df + days 7"
    by code_simp
  have v: "(\<Sum>r\<leftarrow>filter (\<lambda>r. index_max ?df - days 7 < index r) ?df. power_kW r) * 0.25 = 4"
    by code_simp
  show ?thesis
    using weekly_kpis_short_history [OF h1 h2 h3] v by simp
qed

text \<open>
  C5 as stated fails. A history of one reading of 4 kW spans 0 days and has
  \<open>kwh_last_7_days\<close> = 1. A history of two readings of 4 kW, on 2024-01-31 00:00 and on
  2024-02-07 00:00, spans 7 days and is reported available, with \<open>kwh_previous_7_days\<close> = 2
  and \<open>weekly_delta_percent\<close> = -50.
\<close>

theorem weekly_kpis_short_history_counterexample:
  "index_max [\<lparr>index = 1706744700, power_kW = 4\<rparr>] - index_min [\<lparr>index = 1706744700, power_kW = 4\<rparr>]
     < days 14
   \<and> kwh_last_7_days (get_core_kpis [\<lparr>index = 1706744700, power_kW = 4\<rparr>]) = 1
   \<and> index_max [\<lparr>index = 1706659200, power_kW = 4\<rparr>, \<lparr>index = 1707264000, power_kW = 4\<rparr>]
       - index_min [\<lparr>index = 1706659200, power_kW = 4\<rparr>, \<lparr>index = 1707264000, power_kW = 4\<rparr>]
     < days 14
   \<and> status_data_available
        (get_core_kpis [\<lparr>index = 1706659200, power_kW = 4\<rparr>, \<lparr>index = 1707264000, power_kW = 4\<rparr>])
   \<and> kwh_previous_7_days
        (get_core_kpis [\<lparr>index = 1706659200, power_kW = 4\<rparr>, \<lparr>index = 1707264000, power_kW = 4\<rparr>]) = 2
   \<and> weekly_delta_percent
        (get_core_kpis [\<lparr>index = 1706659200, power_kW = 4\<rparr>, \<lparr>index = 1707264000, power_kW = 4\<rparr>]) = - 50"
  by code_simp

text \<open>
  C2. The error path at a history whose index is not in chronological order: readings of
  4 kW on 2024-01-31 00:00, 2024-02-01 00:15 and 2024-01-31 12:00. Every reading is
  later than 30 days before the last row, so \<open>last('30D')\<close> keeps all three (3 kWh). The
  slice from the midnight of the latest day, a label the index does not hold, raises
  \<open>KeyError\<close> after \<open>projected_cost\<close> and \<open>PRICE_PER_KWH_AVG\<close> have been stored, and the
  dictionary returned keeps both instead of the initial 0 and 3.5.
\<close>

theorem get_core_kpis_error_path:
  "try_body [\<lparr>index = 1706659200, power_kW = 4\<rparr>, \<lparr>index = 1706746500, power_kW = 4\<rparr>,
             \<lparr>index = 1706702400, power_kW = 4\<rparr>] initial_kpis
     = Inl (KeyError, initial_kpis\<lparr>projected_cost := 5.04, PRICE_PER_KWH_AVG := 1.68\<rparr>)
   \<and> get_core_kpis [\<lparr>index = 1706659200, power_kW = 4\<rparr>, \<lparr>index = 1706746500, power_kW = 4\<rparr>,
             \<lparr>index = 1706702400, power_kW = 4\<rparr>]
     = initial_kpis\<lparr>projected_cost := 5.04, PRICE_PER_KWH_AVG := 1.68\<rparr>
   \<and> projected_cost (get_core_kpis [\<lparr>index = 1706659200, power_kW = 4\<rparr>,
        \<lparr>index = 1706746500, power_kW = 4\<rparr>, \<lparr>index = 1706702400, power_kW = 4\<rparr>]) \<noteq>
       projected_cost initial_kpis"
  by code_simp

section \<open>Properties of the anomaly detector\<close>

lemma take_drop_nth_upt:
  "e \<le> length xs \<Longrightarrow> take (e - s) (drop s xs) = map ((!) xs) [s..<e]"
  by (auto simp: list_eq_iff_nth_eq)

lemma rolling_window_nth:
  assumes "i < length xs"
  shows "rolling_window xs i = map ((!) xs) [i - 336..<min (i + 336) (length xs)]"
proof -
  have "rolling_window xs i
      = take (min (i + 336) (length xs) - (i - 336)) (drop (i - 336) xs)"
    by (simp add: rolling_window_def window_size_def Let_def add.commute)
  also have "\<dots> = map ((!) xs) [i - 336..<min (i + 336) (length xs)]"
    by (rule take_drop_nth_upt) simp
  finally show ?thesis .
qed

lemma window_positions_interval:
  "window_positions n i = {i - 336..<min (i + 336) n}"
  by (auto simp: window_positions_def)

lemma length_rolling_window:
  "i < length xs \<Longrightarrow> length (rolling_window xs i) = card (window_positions (length xs) i)"
  by (simp add: rolling_window_nth window_positions_interval)

lemma sum_list_rolling_window:
  assumes "i < length xs"
  shows "sum_list (map f (rolling_window xs i)) = (\<Sum>j \<in> window_positions (length xs) i. f (xs ! j))"
proof -
  have "sum_list (map f (rolling_window xs i))
      = sum_list (map (\<lambda>j. f (xs ! j)) [i - 336..<min (i + 336) (length xs)])"
    by (simp add: rolling_window_nth [OF assms] o_def)
  also have "\<dots> = (\<Sum>j \<in> {i - 336..<min (i + 336) (length xs)}. f (xs ! j))"
    by (simp add: interv_sum_list_conv_sum_set_nat)
  finally show ?thesis
    by (simp add: window_positions_interval)
qed

lemma mean_rolling_window:
  assumes "i < length xs"
  shows "mean (rolling_window xs i) = window_mean xs i"
  using sum_list_rolling_window [OF assms, of "\<lambda>x. x"]
  by (simp add: mean_def window_mean_def length_rolling_window [OF assms])

lemma std_rolling_window:
  assumes "i < length xs"
  shows "std (rolling_window xs i) = window_std xs i"
  using sum_list_rolling_window [OF assms, of "\<lambda>x. (x - window_mean xs i)\<^sup>2"]
  by (simp add: std_def window_std_def length_rolling_window [OF assms]
      mean_rolling_window [OF assms])

lemma is_anomaly_iff:
  assumes "i < length xs"
  shows "is_anomaly xs i \<longleftrightarrow>
     min_periods \<le> card (window_positions (length xs) i)
     \<and> xs ! i > window_mean xs i + 2 * window_std xs i"
  by (simp add: is_anomaly_def anomaly_threshold_def rolling_avg_def rolling_std_def Let_def
      length_rolling_window [OF assms] mean_rolling_window [OF assms]
      std_rolling_window [OF assms])

lemma constant_window:
  assumes "\<forall>x \<in> set xs. x = c"
  shows "rolling_window xs i = replicate (length (rolling_window xs i)) c"
proof -
  have "set (rolling_window xs i) \<subseteq> set xs"
    unfolding rolling_window_def Let_def
    by (meson set_take_subset set_drop_subset subset_trans)
  then have "\<forall>x \<in> set (rolling_window xs i). x = c"
    using assms by blast
  then show ?thesis
    by (simp add: replicate_length_same)
qed

lemma mean_replicate: "0 < n \<Longrightarrow> mean (replicate n c) = c"
  by (simp add: mean_def sum_list_replicate)

lemma std_replicate: "0 < n \<Longrightarrow> std (replicate n c) = 0"
  by (simp add: std_def mean_replicate sum_list_replicate)

lemma threshold_constant:
  assumes "\<forall>x \<in> set xs. x = c"
  shows "anomaly_threshold xs i = None \<or> anomaly_threshold xs i = Some c"
proof (cases "min_periods \<le> length (rolling_window xs i)")
  case True
  then have pos: "0 < length (rolling_window xs i)"
    unfolding min_periods_def by linarith
  have "mean (rolling_window xs i) = c" "std (rolling_window xs i) = 0"
    using constant_window [OF assms, of i] mean_replicate [OF pos, of c]
      std_replicate [OF pos, of c] by simp_all
  then show ?thesis
    using True by (simp add: anomaly_threshold_def rolling_avg_def rolling_std_def Let_def)
next
  case False
  then show ?thesis
    by (simp add: anomaly_threshold_def rolling_avg_def rolling_std_def Let_def)
qed

lemma is_anomaly_constant:
  assumes "\<forall>x \<in> set xs. x = c" and "i < length xs"
  shows "\<not> is_anomaly xs i"
proof -
  have "xs ! i = c"
    using assms by simp
  then show ?thesis
    using threshold_constant [OF assms(1), of i]
    by (auto simp: is_anomaly_def)
qed

text \<open>
  C7. A position is among the anomalies exactly when its window holds at least 96 values
  and its \<open>power_kW\<close> is greater than the window's mean plus twice the window's standard
  deviation; the positions are reported in row order; a position whose window holds fewer
  than 96 values is not reported; and on a frame whose readings all have the same
  \<open>power_kW\<close> every threshold that exists equals that value and no position is reported.
\<close>

theorem anomalies_rule:
  "set (anomalies df) =
     {i. i < length df
         \<and> min_periods \<le> card (window_positions (length df) i)
         \<and> map power_kW df ! i
             > window_mean (map power_kW df) i + 2 * window_std (map power_kW df) i}
   \<and> sorted (anomalies df) \<and> distinct (anomalies df)
   \<and> (card (window_positions (length df) i) < min_periods \<longrightarrow> i \<notin> set (anomalies df))
   \<and> ((\<forall>r \<in> set df. power_kW r = c) \<longrightarrow>
        anomalies df = []
        \<and> (\<forall>t. anomaly_threshold (map power_kW df) i = Some t \<longrightarrow> t = c))"
proof (intro conjI impI allI)
  show s: "set (anomalies df) =
     {i. i < length df
         \<and> min_periods \<le> card (window_positions (length df) i)
         \<and> map power_kW df ! i
             > window_mean (map power_kW df) i + 2 * window_std (map power_kW df) i}"
    using is_anomaly_iff [of _ "map power_kW df"]
    by (auto simp: anomalies_def)
  show "sorted (anomalies df)"
    by (simp add: anomalies_def sorted_wrt_filter)
  show "distinct (anomalies df)"
    by (simp add: anomalies_def)
  show "i \<notin> set (anomalies df)" if "card (window_positions (length df) i) < min_periods"
    using that unfolding s by simp
  show "anomalies df = []" if "\<forall>r \<in> set df. power_kW r = c"
  proof -
    have "\<forall>x \<in> set (map power_kW df). x = c"
      using that by simp
    then have "\<forall>i < length df. \<not> is_anomaly (map power_kW df) i"
      using is_anomaly_constant [of "map power_kW df" c] by simp
    then show ?thesis
      by (simp add: anomalies_def filter_empty_conv)
  qed
  show "t = c" if "\<forall>r \<in> set df. power_kW r = c"
    and "anomaly_threshold (map power_kW df) i = Some t" for t
  proof -
    have "\<forall>x \<in> set (map power_kW df). x = c"
      using that(1) by simp
    from threshold_constant [OF this, of i] that(2) show ?thesis
      by simp
  qed
qed

text \<open>
  A frame of three readings of 2 kW (every window holds 3 values), and a frame of 100
  readings of 2 kW at 15-minute spacing.
\<close>

theorem anomalies_rule_witness:
  "card (window_positions
      (length [\<lparr>index = 1706745600, power_kW = 2\<rparr>, \<lparr>index = 1706746500, power_kW = 2\<rparr>,
               \<lparr>index = 1706747400, power_kW = 2\<rparr>]) 0) < min_periods
   \<and> 0 \<notin> set (anomalies [\<lparr>index = 1706745600, power_kW = 2\<rparr>, \<lparr>index = 1706746500, power_kW = 2\<rparr>,
               \<lparr>index = 1706747400, power_kW = 2\<rparr>])
   \<and> map power_kW (map (\<lambda>n. \<lparr>index = 1706745600 + 900 * int n, power_kW = 2\<rparr>) [0..<100])
       = replicate 100 2
   \<and> anomalies (map (\<lambda>n. \<lparr>index = 1706745600 + 900 * int n, power_kW = 2\<rparr>) [0..<100]) = []"
proof -
  let ?small = "[\<lparr>index = 1706745600, power_kW = 2\<rparr>, \<lparr>index = 1706746500, power_kW = 2\<rparr>,
               \<lparr>index = 1706747400, power_kW = 2\<rparr>]"
  let ?flat = "map (\<lambda>n. \<lparr>index = 1706745600 + 900 * int n, power_kW = 2 :: real\<rparr>) [0..<100]"
  have h1: "card (window_positions (length ?small) 0) < min_periods"
    by (simp add: window_positions_interval min_periods_def)
  have h2: "\<forall>r \<in> set ?flat. power_kW r = 2"
    by simp
  have h3: "map power_kW ?flat = replicate 100 2"
    by (simp add: o_def map_replicate_const)
  have "0 \<notin> set (anomalies ?small)"
    using anomalies_rule [of ?small 0 2] h1 by blast
  moreover have "anomalies ?flat = []"
    using anomalies_rule [of ?flat 0 2] h2 by blast
  ultimately show ?thesis
    using h1 h3 by blast
qed

end
